theory Spec2Isabelle
  imports Main "HOL-Library.Word"
begin

unbundle bit_operations_syntax

section \<open>Data model\<close>

text \<open>
  The subject is \<^verbatim>\<open>utils/encryption.ts\<close>: AES-256-GCM password encryption on top of the
  Node.js \<^verbatim>\<open>crypto\<close> module.

  A JavaScript string is a sequence of UTF-16 code units, a \<^verbatim>\<open>Buffer\<close> a sequence of
  bytes.  The envelope that \<^verbatim>\<open>encryptPassword\<close> returns and \<^verbatim>\<open>decryptPassword\<close> reads is
  a string of one-byte characters (base64 text); it is modelled as a \<^typ>\<open>string\<close>, so
  an input of \<^verbatim>\<open>decryptPassword\<close> with a character above U+00FF is outside the model.
\<close>

type_synonym byte = "8 word"
type_synonym bytes = "byte list"
type_synonym jsstring = "16 word list"

definition js_of_ascii :: "string \<Rightarrow> jsstring" where
  "js_of_ascii s = map of_char s"

text \<open>Line 9: \<^verbatim>\<open>const DEFAULT_KEY = 'playwright-test-key-change-in-production'\<close>.\<close>

definition DEFAULT_KEY :: jsstring where
  "DEFAULT_KEY = js_of_ascii ''playwright-test-key-change-in-production''"

subsection \<open>Key resolution\<close>

text \<open>
  JavaScript's \<^verbatim>\<open>a || b\<close> on operands that are a string or \<^verbatim>\<open>undefined\<close>: the left
  operand when it is truthy (a non-empty string), the right operand otherwise.
\<close>

definition js_truthy :: "jsstring option \<Rightarrow> bool" where
  "js_truthy a = (case a of None \<Rightarrow> False | Some s \<Rightarrow> s \<noteq> [])"

definition js_or :: "jsstring option \<Rightarrow> jsstring option \<Rightarrow> jsstring option" where
  "js_or a b = (if js_truthy a then a else b)"

text \<open>
  Lines 26 and 56, the same expression in both functions:
  \<^verbatim>\<open>const key = encryptionKey || process.env.PLAYWRIGHT_ENCRYPTION_KEY || DEFAULT_KEY\<close>.
  The optional parameter is \<open>None\<close> when it is omitted; \<open>env\<close> is the value of the
  environment variable, \<open>None\<close> when it is not set.
\<close>

definition resolve_key :: "jsstring option \<Rightarrow> jsstring option \<Rightarrow> jsstring" where
  "resolve_key encryptionKey env =
     (case js_or (js_or encryptionKey env) (Some DEFAULT_KEY) of
        Some k \<Rightarrow> k
      | None \<Rightarrow> DEFAULT_KEY)"

section \<open>Strings and buffers\<close>

subsection \<open>UTF-8 encoding of a string, and decoding of a buffer\<close>

text \<open>
  \<^verbatim>\<open>Buffer.from(s, 'utf8')\<close>, and every Node API that is given a string with the encoding
  \<^verbatim>\<open>'utf8'\<close>, writes a surrogate pair as the four bytes of its code point and replaces
  a surrogate that has no partner by U+FFFD (\<^verbatim>\<open>EF BF BD\<close>).  Decoding bytes to a string
  replaces every maximal ill-formed subsequence by U+FFFD and writes a code point above
  U+FFFF as a surrogate pair.
\<close>

definition is_high_surrogate :: "16 word \<Rightarrow> bool" where
  "is_high_surrogate c = (0xD800 \<le> unat c \<and> unat c < 0xDC00)"

definition is_low_surrogate :: "16 word \<Rightarrow> bool" where
  "is_low_surrogate c = (0xDC00 \<le> unat c \<and> unat c < 0xE000)"

definition utf8_of_codepoint :: "nat \<Rightarrow> bytes" where
  "utf8_of_codepoint u =
     (if u < 0x80 then [of_nat u]
      else if u < 0x800 then [of_nat (0xC0 + u div 64), of_nat (0x80 + u mod 64)]
      else if u < 0x10000 then
        [of_nat (0xE0 + u div 4096), of_nat (0x80 + (u div 64) mod 64), of_nat (0x80 + u mod 64)]
      else
        [of_nat (0xF0 + u div 262144), of_nat (0x80 + (u div 4096) mod 64),
         of_nat (0x80 + (u div 64) mod 64), of_nat (0x80 + u mod 64)])"

definition surrogate_pair_codepoint :: "16 word \<Rightarrow> 16 word \<Rightarrow> nat" where
  "surrogate_pair_codepoint hi lo =
     0x10000 + (unat hi - 0xD800) * 1024 + (unat lo - 0xDC00)"

fun utf8_encode :: "jsstring \<Rightarrow> bytes" where
  "utf8_encode [] = []"
| "utf8_encode [c] =
     (if is_high_surrogate c \<or> is_low_surrogate c then utf8_of_codepoint 0xFFFD
      else utf8_of_codepoint (unat c))"
| "utf8_encode (c # d # r) =
     (if is_high_surrogate c then
        (if is_low_surrogate d
         then utf8_of_codepoint (surrogate_pair_codepoint c d) @ utf8_encode r
         else utf8_of_codepoint 0xFFFD @ utf8_encode (d # r))
      else if is_low_surrogate c then utf8_of_codepoint 0xFFFD @ utf8_encode (d # r)
      else utf8_of_codepoint (unat c) @ utf8_encode (d # r))"

definition utf16_of_codepoint :: "nat \<Rightarrow> jsstring" where
  "utf16_of_codepoint u =
     (if u < 0x10000 then [of_nat u]
      else [of_nat (0xD800 + (u - 0x10000) div 1024), of_nat (0xDC00 + (u - 0x10000) mod 1024)])"

definition in_range :: "nat \<Rightarrow> nat \<Rightarrow> byte \<Rightarrow> bool" where
  "in_range lo hi b = (lo \<le> unat b \<and> unat b \<le> hi)"

text \<open>Bounds of the first continuation byte after the lead byte \<open>b\<close>.\<close>

definition cont_lo :: "byte \<Rightarrow> nat" where
  "cont_lo b = (if unat b = 0xE0 then 0xA0 else if unat b = 0xF0 then 0x90 else 0x80)"
definition cont_hi :: "byte \<Rightarrow> nat" where
  "cont_hi b = (if unat b = 0xED then 0x9F else if unat b = 0xF4 then 0x8F else 0xBF)"

fun utf8_decode_cps :: "bytes \<Rightarrow> nat list" where
  "utf8_decode_cps [] = []"
| "utf8_decode_cps (b # bs) =
     (if unat b < 0x80 then unat b # utf8_decode_cps bs
      else if in_range 0xC2 0xDF b then
        (case bs of
           b1 # r1 \<Rightarrow>
             if in_range 0x80 0xBF b1
             then ((unat b - 0xC0) * 64 + (unat b1 - 0x80)) # utf8_decode_cps r1
             else 0xFFFD # utf8_decode_cps bs
         | [] \<Rightarrow> [0xFFFD])
      else if in_range 0xE0 0xEF b then
        (case bs of
           b1 # r1 \<Rightarrow>
             if in_range (cont_lo b) (cont_hi b) b1 then
               (case r1 of
                  b2 # r2 \<Rightarrow>
                    if in_range 0x80 0xBF b2
                    then ((unat b - 0xE0) * 4096 + (unat b1 - 0x80) * 64 + (unat b2 - 0x80))
                           # utf8_decode_cps r2
                    else 0xFFFD # utf8_decode_cps r1
                | [] \<Rightarrow> [0xFFFD])
             else 0xFFFD # utf8_decode_cps bs
         | [] \<Rightarrow> [0xFFFD])
      else if in_range 0xF0 0xF4 b then
        (case bs of
           b1 # r1 \<Rightarrow>
             if in_range (cont_lo b) (cont_hi b) b1 then
               (case r1 of
                  b2 # r2 \<Rightarrow>
                    if in_range 0x80 0xBF b2 then
                      (case r2 of
                         b3 # r3 \<Rightarrow>
                           if in_range 0x80 0xBF b3
                           then ((unat b - 0xF0) * 262144 + (unat b1 - 0x80) * 4096
                                   + (unat b2 - 0x80) * 64 + (unat b3 - 0x80))
                                  # utf8_decode_cps r3
                           else 0xFFFD # utf8_decode_cps r2
                       | [] \<Rightarrow> [0xFFFD])
                    else 0xFFFD # utf8_decode_cps r1
                | [] \<Rightarrow> [0xFFFD])
             else 0xFFFD # utf8_decode_cps bs
         | [] \<Rightarrow> [0xFFFD])
      else 0xFFFD # utf8_decode_cps bs)"

definition utf8_decode :: "bytes \<Rightarrow> jsstring" where
  "utf8_decode bs = concat (map utf16_of_codepoint (utf8_decode_cps bs))"

fun well_formed_utf16 :: "jsstring \<Rightarrow> bool" where
  "well_formed_utf16 [] = True"
| "well_formed_utf16 [c] = (\<not> is_high_surrogate c \<and> \<not> is_low_surrogate c)"
| "well_formed_utf16 (c # d # r) =
     (if is_high_surrogate c then is_low_surrogate d \<and> well_formed_utf16 r
      else \<not> is_low_surrogate c \<and> well_formed_utf16 (d # r))"


subsection \<open>Base64\<close>

text \<open>
  Encoding uses the standard alphabet with \<^verbatim>\<open>=\<close> padding.  Node's decoder
  (\<^verbatim>\<open>Buffer.from(s, 'base64')\<close>) never throws: it accepts the standard and the
  URL-safe alphabet, skips every other character, stops at the first \<^verbatim>\<open>=\<close>, and drops
  a trailing group that holds fewer than eight bits.
\<close>

definition b64char :: "nat \<Rightarrow> char" where
  "b64char n =
     (if n < 26 then char_of (65 + n)
      else if n < 52 then char_of (71 + n)
      else if n < 62 then char_of (n - 4)
      else if n = 62 then CHR ''+'' else CHR ''/'')"

definition unbase64 :: "char \<Rightarrow> nat option" where
  "unbase64 c =
     (let x = (of_char c :: nat) in
      if 65 \<le> x \<and> x \<le> 90 then Some (x - 65)
      else if 97 \<le> x \<and> x \<le> 122 then Some (x - 71)
      else if 48 \<le> x \<and> x \<le> 57 then Some (x + 4)
      else if c = CHR ''+'' \<or> c = CHR ''-'' then Some 62
      else if c = CHR ''/'' \<or> c = CHR ''_'' then Some 63
      else None)"

fun base64_encode :: "bytes \<Rightarrow> string" where
  "base64_encode (a # b # c # r) =
     [b64char (unat a div 4),
      b64char ((unat a mod 4) * 16 + unat b div 16),
      b64char ((unat b mod 16) * 4 + unat c div 64),
      b64char (unat c mod 64)] @ base64_encode r"
| "base64_encode [a, b] =
     [b64char (unat a div 4),
      b64char ((unat a mod 4) * 16 + unat b div 16),
      b64char ((unat b mod 16) * 4),
      CHR ''='']"
| "base64_encode [a] =
     [b64char (unat a div 4),
      b64char ((unat a mod 4) * 16),
      CHR ''='', CHR ''='']"
| "base64_encode [] = []"

fun b64_sextets :: "string \<Rightarrow> nat list" where
  "b64_sextets [] = []"
| "b64_sextets (c # cs) =
     (case unbase64 c of
        Some v \<Rightarrow> v # b64_sextets cs
      | None \<Rightarrow> if c = CHR ''='' then [] else b64_sextets cs)"

fun b64_bytes :: "nat list \<Rightarrow> bytes" where
  "b64_bytes (s0 # s1 # s2 # s3 # r) =
     [of_nat (s0 * 4 + s1 div 16),
      of_nat ((s1 mod 16) * 16 + s2 div 4),
      of_nat ((s2 mod 4) * 64 + s3)] @ b64_bytes r"
| "b64_bytes [s0, s1, s2] =
     [of_nat (s0 * 4 + s1 div 16),
      of_nat ((s1 mod 16) * 16 + s2 div 4)]"
| "b64_bytes [s0, s1] = [of_nat (s0 * 4 + s1 div 16)]"
| "b64_bytes [s0] = []"
| "b64_bytes [] = []"

definition base64_decode :: "string \<Rightarrow> bytes" where
  "base64_decode s = b64_bytes (b64_sextets s)"



section \<open>The primitives of the \<^verbatim>\<open>crypto\<close> module\<close>

text \<open>
  \<^verbatim>\<open>crypto.pbkdf2Sync\<close> and the cipher \<^verbatim>\<open>aes-256-gcm\<close> are not code of the repository:
  they are modelled from the standards that define them.
\<close>

subsection \<open>Byte strings and big-endian words\<close>

text \<open>
  \<open>be_bytes n v\<close> is the number \<open>v\<close> in \<open>n\<close> bytes, most significant first, and
  \<open>be_nat\<close> reads such bytes back; \<open>blocks_of n xs\<close> cuts \<open>xs\<close> into pieces of
  \<open>n\<close> elements, the last one shorter when the length is not a multiple of \<open>n\<close>.
\<close>

definition xor_bytes :: "bytes \<Rightarrow> bytes \<Rightarrow> bytes" where
  "xor_bytes xs ys = map2 (XOR) xs ys"

definition be_bytes :: "nat \<Rightarrow> nat \<Rightarrow> bytes" where
  "be_bytes n v = map (\<lambda>i. of_nat (v div 256 ^ (n - 1 - i))) [0..<n]"

definition be_nat :: "bytes \<Rightarrow> nat" where
  "be_nat bs = foldl (\<lambda>acc b. acc * 256 + unat b) 0 bs"

definition blocks_of :: "nat \<Rightarrow> 'a list \<Rightarrow> 'a list list" where
  "blocks_of n xs = map (\<lambda>i. take n (drop (n * i) xs)) [0..<(length xs + n - 1) div n]"

subsection \<open>SHA-256 (FIPS 180-4)\<close>

text \<open>
  The round constants and the initial hash value of section 4.2.2 and 5.3.3, the six
  logical functions of section 4.1.2, the padding of section 5.1.1, the message schedule
  and the compression of a 64-byte block of section 6.2.2.
\<close>

definition sha256_K :: "32 word list" where
  "sha256_K =
     [
      0x428A2F98, 0x71374491, 0xB5C0FBCF, 0xE9B5DBA5, 0x3956C25B, 0x59F111F1,
      0x923F82A4, 0xAB1C5ED5, 0xD807AA98, 0x12835B01, 0x243185BE, 0x550C7DC3,
      0x72BE5D74, 0x80DEB1FE, 0x9BDC06A7, 0xC19BF174, 0xE49B69C1, 0xEFBE4786,
      0x0FC19DC6, 0x240CA1CC, 0x2DE92C6F, 0x4A7484AA, 0x5CB0A9DC, 0x76F988DA,
      0x983E5152, 0xA831C66D, 0xB00327C8, 0xBF597FC7, 0xC6E00BF3, 0xD5A79147,
      0x06CA6351, 0x14292967, 0x27B70A85, 0x2E1B2138, 0x4D2C6DFC, 0x53380D13,
      0x650A7354, 0x766A0ABB, 0x81C2C92E, 0x92722C85, 0xA2BFE8A1, 0xA81A664B,
      0xC24B8B70, 0xC76C51A3, 0xD192E819, 0xD6990624, 0xF40E3585, 0x106AA070,
      0x19A4C116, 0x1E376C08, 0x2748774C, 0x34B0BCB5, 0x391C0CB3, 0x4ED8AA4A,
      0x5B9CCA4F, 0x682E6FF3, 0x748F82EE, 0x78A5636F, 0x84C87814, 0x8CC70208,
      0x90BEFFFA, 0xA4506CEB, 0xBEF9A3F7, 0xC67178F2]"

definition sha256_H0 :: "32 word list" where
  "sha256_H0 =
     [
      0x6A09E667, 0xBB67AE85, 0x3C6EF372, 0xA54FF53A,
      0x510E527F, 0x9B05688C, 0x1F83D9AB, 0x5BE0CD19]"

definition Ch :: "32 word \<Rightarrow> 32 word \<Rightarrow> 32 word \<Rightarrow> 32 word" where
  "Ch x y z = (x AND y) XOR (NOT x AND z)"

definition Maj :: "32 word \<Rightarrow> 32 word \<Rightarrow> 32 word \<Rightarrow> 32 word" where
  "Maj x y z = (x AND y) XOR (x AND z) XOR (y AND z)"

definition Sigma0 :: "32 word \<Rightarrow> 32 word" where
  "Sigma0 x = word_rotr 2 x XOR word_rotr 13 x XOR word_rotr 22 x"

definition Sigma1 :: "32 word \<Rightarrow> 32 word" where
  "Sigma1 x = word_rotr 6 x XOR word_rotr 11 x XOR word_rotr 25 x"

definition sigma0 :: "32 word \<Rightarrow> 32 word" where
  "sigma0 x = word_rotr 7 x XOR word_rotr 18 x XOR drop_bit 3 x"

definition sigma1 :: "32 word \<Rightarrow> 32 word" where
  "sigma1 x = word_rotr 17 x XOR word_rotr 19 x XOR drop_bit 10 x"

definition sha256_pad :: "bytes \<Rightarrow> bytes" where
  "sha256_pad m =
     m @ [0x80] @ replicate ((119 - length m mod 64) mod 64) 0 @ be_bytes 8 (8 * length m)"

fun sha256_schedule :: "nat \<Rightarrow> 32 word list \<Rightarrow> 32 word list" where
  "sha256_schedule 0 w = w"
| "sha256_schedule (Suc n) w =
     (let t = length w in
      sha256_schedule n
        (w @ [sigma1 (w ! (t - 2)) + w ! (t - 7) + sigma0 (w ! (t - 15)) + w ! (t - 16)]))"

definition sha256_round :: "32 word list \<Rightarrow> 32 word \<times> 32 word \<Rightarrow> 32 word list" where
  "sha256_round s kw =
     (let a = s ! 0; b = s ! 1; c = s ! 2; d = s ! 3;
          e = s ! 4; f = s ! 5; g = s ! 6; h = s ! 7;
          t1 = h + Sigma1 e + Ch e f g + fst kw + snd kw;
          t2 = Sigma0 a + Maj a b c
      in [t1 + t2, a, b, c, d + t1, e, f, g])"

definition sha256_compress :: "32 word list \<Rightarrow> bytes \<Rightarrow> 32 word list" where
  "sha256_compress hs block =
     (let w = sha256_schedule 48 (map (\<lambda>b. of_nat (be_nat b)) (blocks_of 4 block));
          s = foldl sha256_round hs (zip sha256_K w)
      in map2 (+) hs s)"

definition sha256 :: "bytes \<Rightarrow> bytes" where
  "sha256 m =
     (let hs = foldl sha256_compress sha256_H0 (blocks_of 64 (sha256_pad m))
      in concat (map (\<lambda>i. be_bytes 4 (unat (hs ! i))) [0..<8]))"

subsection \<open>HMAC-SHA-256 (RFC 2104) and PBKDF2 (RFC 8018)\<close>

text \<open>
  HMAC hashes a key longer than the 64-byte block of SHA-256 and fills a shorter one with
  zero bytes.  PBKDF2 computes block \<open>i\<close> of its output as the exclusive or of \<open>c\<close>
  iterated applications of the keyed function \<open>mac\<close>, starting from the salt followed by
  \<open>i\<close> in four bytes, and returns the first \<open>dklen\<close> bytes of the blocks 1, 2, ...
\<close>

definition hmac_key_block :: "bytes \<Rightarrow> bytes" where
  "hmac_key_block key =
     (let k0 = (if 64 < length key then sha256 key else key)
      in k0 @ replicate (64 - length k0) 0)"

definition hmac_sha256 :: "bytes \<Rightarrow> bytes \<Rightarrow> bytes" where
  "hmac_sha256 key msg =
     (let kb = hmac_key_block key
      in sha256 (map (\<lambda>b. b XOR 0x5c) kb @ sha256 (map (\<lambda>b. b XOR 0x36) kb @ msg)))"

fun pbkdf2_iter :: "(bytes \<Rightarrow> bytes) \<Rightarrow> nat \<Rightarrow> bytes \<Rightarrow> bytes \<Rightarrow> bytes" where
  "pbkdf2_iter mac 0 u acc = acc"
| "pbkdf2_iter mac (Suc n) u acc =
     (let u' = mac u in pbkdf2_iter mac n u' (xor_bytes acc u'))"

definition pbkdf2_F :: "(bytes \<Rightarrow> bytes) \<Rightarrow> bytes \<Rightarrow> nat \<Rightarrow> nat \<Rightarrow> bytes" where
  "pbkdf2_F mac salt c i =
     (let u1 = mac (salt @ be_bytes 4 i) in pbkdf2_iter mac (c - 1) u1 u1)"

definition pbkdf2 :: "(bytes \<Rightarrow> bytes) \<Rightarrow> nat \<Rightarrow> bytes \<Rightarrow> nat \<Rightarrow> nat \<Rightarrow> bytes" where
  "pbkdf2 mac hlen salt c dklen =
     take dklen (concat (map (pbkdf2_F mac salt c) [1..<Suc ((dklen + hlen - 1) div hlen)]))"

definition pbkdf2_hmac_sha256 :: "bytes \<Rightarrow> bytes \<Rightarrow> nat \<Rightarrow> nat \<Rightarrow> bytes" where
  "pbkdf2_hmac_sha256 password salt c dklen = pbkdf2 (hmac_sha256 password) 32 salt c dklen"

subsection \<open>AES-256 (FIPS 197)\<close>

text \<open>
  The state is the list of its 16 bytes, column by column.  The key schedule expands the
  eight words of a 32-byte key to sixty words, fifteen round keys; the cipher is the initial
  round key addition, thirteen full rounds and the final round without \<open>mix_columns\<close>.
\<close>

definition aes_sbox :: "byte list" where
  "aes_sbox =
     [
      0x63, 0x7C, 0x77, 0x7B, 0xF2, 0x6B, 0x6F, 0xC5, 0x30, 0x01, 0x67, 0x2B,
      0xFE, 0xD7, 0xAB, 0x76, 0xCA, 0x82, 0xC9, 0x7D, 0xFA, 0x59, 0x47, 0xF0,
      0xAD, 0xD4, 0xA2, 0xAF, 0x9C, 0xA4, 0x72, 0xC0, 0xB7, 0xFD, 0x93, 0x26,
      0x36, 0x3F, 0xF7, 0xCC, 0x34, 0xA5, 0xE5, 0xF1, 0x71, 0xD8, 0x31, 0x15,
      0x04, 0xC7, 0x23, 0xC3, 0x18, 0x96, 0x05, 0x9A, 0x07, 0x12, 0x80, 0xE2,
      0xEB, 0x27, 0xB2, 0x75, 0x09, 0x83, 0x2C, 0x1A, 0x1B, 0x6E, 0x5A, 0xA0,
      0x52, 0x3B, 0xD6, 0xB3, 0x29, 0xE3, 0x2F, 0x84, 0x53, 0xD1, 0x00, 0xED,
      0x20, 0xFC, 0xB1, 0x5B, 0x6A, 0xCB, 0xBE, 0x39, 0x4A, 0x4C, 0x58, 0xCF,
      0xD0, 0xEF, 0xAA, 0xFB, 0x43, 0x4D, 0x33, 0x85, 0x45, 0xF9, 0x02, 0x7F,
      0x50, 0x3C, 0x9F, 0xA8, 0x51, 0xA3, 0x40, 0x8F, 0x92, 0x9D, 0x38, 0xF5,
      0xBC, 0xB6, 0xDA, 0x21, 0x10, 0xFF, 0xF3, 0xD2, 0xCD, 0x0C, 0x13, 0xEC,
      0x5F, 0x97, 0x44, 0x17, 0xC4, 0xA7, 0x7E, 0x3D, 0x64, 0x5D, 0x19, 0x73,
      0x60, 0x81, 0x4F, 0xDC, 0x22, 0x2A, 0x90, 0x88, 0x46, 0xEE, 0xB8, 0x14,
      0xDE, 0x5E, 0x0B, 0xDB, 0xE0, 0x32, 0x3A, 0x0A, 0x49, 0x06, 0x24, 0x5C,
      0xC2, 0xD3, 0xAC, 0x62, 0x91, 0x95, 0xE4, 0x79, 0xE7, 0xC8, 0x37, 0x6D,
      0x8D, 0xD5, 0x4E, 0xA9, 0x6C, 0x56, 0xF4, 0xEA, 0x65, 0x7A, 0xAE, 0x08,
      0xBA, 0x78, 0x25, 0x2E, 0x1C, 0xA6, 0xB4, 0xC6, 0xE8, 0xDD, 0x74, 0x1F,
      0x4B, 0xBD, 0x8B, 0x8A, 0x70, 0x3E, 0xB5, 0x66, 0x48, 0x03, 0xF6, 0x0E,
      0x61, 0x35, 0x57, 0xB9, 0x86, 0xC1, 0x1D, 0x9E, 0xE1, 0xF8, 0x98, 0x11,
      0x69, 0xD9, 0x8E, 0x94, 0x9B, 0x1E, 0x87, 0xE9, 0xCE, 0x55, 0x28, 0xDF,
      0x8C, 0xA1, 0x89, 0x0D, 0xBF, 0xE6, 0x42, 0x68, 0x41, 0x99, 0x2D, 0x0F,
      0xB0, 0x54, 0xBB, 0x16]"

definition sub_byte :: "byte \<Rightarrow> byte" where
  "sub_byte b = aes_sbox ! unat b"

definition xtime :: "byte \<Rightarrow> byte" where
  "xtime b = (if bit b 7 then push_bit 1 b XOR 0x1b else push_bit 1 b)"

definition sub_bytes :: "bytes \<Rightarrow> bytes" where
  "sub_bytes s = map sub_byte s"

definition shift_rows :: "bytes \<Rightarrow> bytes" where
  "shift_rows s = map (\<lambda>i. s ! (4 * ((i div 4 + i mod 4) mod 4) + i mod 4)) [0..<16]"

definition mix_column :: "bytes \<Rightarrow> bytes" where
  "mix_column a =
     (let a0 = a ! 0; a1 = a ! 1; a2 = a ! 2; a3 = a ! 3
      in [xtime a0 XOR (xtime a1 XOR a1) XOR a2 XOR a3,
          a0 XOR xtime a1 XOR (xtime a2 XOR a2) XOR a3,
          a0 XOR a1 XOR xtime a2 XOR (xtime a3 XOR a3),
          (xtime a0 XOR a0) XOR a1 XOR a2 XOR xtime a3])"

definition mix_columns :: "bytes \<Rightarrow> bytes" where
  "mix_columns s = concat (map mix_column (blocks_of 4 s))"

definition aes_rcon :: "byte list" where
  "aes_rcon = [0x01, 0x02, 0x04, 0x08, 0x10, 0x20, 0x40]"

fun aes256_expand :: "nat \<Rightarrow> bytes list \<Rightarrow> bytes list" where
  "aes256_expand 0 w = w"
| "aes256_expand (Suc n) w =
     (let i = length w;
          prev = w ! (i - 1);
          temp = (if i mod 8 = 0
                  then xor_bytes (sub_bytes (rotate1 prev)) [aes_rcon ! (i div 8 - 1), 0, 0, 0]
                  else if i mod 8 = 4 then sub_bytes prev
                  else prev)
      in aes256_expand n (w @ [xor_bytes (w ! (i - 8)) temp]))"

definition aes256_key_schedule :: "bytes \<Rightarrow> bytes list" where
  "aes256_key_schedule key = blocks_of 16 (concat (aes256_expand 52 (blocks_of 4 key)))"

definition aes_round :: "bytes \<Rightarrow> bytes \<Rightarrow> bytes" where
  "aes_round s rk = xor_bytes (mix_columns (shift_rows (sub_bytes s))) rk"

definition aes_final_round :: "bytes \<Rightarrow> bytes \<Rightarrow> bytes" where
  "aes_final_round s rk = xor_bytes (shift_rows (sub_bytes s)) rk"

definition aes256_encrypt_bytes :: "bytes \<Rightarrow> bytes \<Rightarrow> bytes" where
  "aes256_encrypt_bytes key block =
     (let rks = aes256_key_schedule key;
          s0 = xor_bytes block (rks ! 0);
          s13 = foldl aes_round s0 (take 13 (drop 1 rks))
      in aes_final_round s13 (rks ! 14))"

subsection \<open>Galois/Counter Mode (NIST SP 800-38D)\<close>

text \<open>
  A block is a 128-bit word whose most significant byte is the first byte of the block.
  \<open>gf_mult\<close> is the multiplication of section 6.3, \<open>ghash\<close> the hash of section 6.4
  (a last block that is short is filled with zero bytes), \<open>gctr\<close> the counter mode of
  section 6.5.  The pre-counter block \<open>gcm_J0\<close> is the nonce followed by the counter 1 when
  the nonce has 12 bytes, and a hash of the nonce and its length otherwise, which is the
  case of the 16-byte nonce of this program.  \<open>gcm_crypt\<close> both encrypts and decrypts;
  \<open>gcm_tag\<close> is the full 16-byte tag over the associated data and the ciphertext.
\<close>

type_synonym block = "128 word"

definition block_of_bytes :: "bytes \<Rightarrow> block" where
  "block_of_bytes bs = of_nat (be_nat (take 16 (bs @ replicate 16 0)))"

definition bytes_of_block :: "block \<Rightarrow> bytes" where
  "bytes_of_block w = be_bytes 16 (unat w)"

definition aes256_encrypt :: "bytes \<Rightarrow> block \<Rightarrow> block" where
  "aes256_encrypt key x = block_of_bytes (aes256_encrypt_bytes key (bytes_of_block x))"

definition gf_step :: "block \<Rightarrow> block \<times> block \<Rightarrow> nat \<Rightarrow> block \<times> block" where
  "gf_step x zv i =
     (let z = (if bit x (127 - i) then fst zv XOR snd zv else fst zv);
          v = (if bit (snd zv) 0 then drop_bit 1 (snd zv) XOR push_bit 120 0xE1
               else drop_bit 1 (snd zv))
      in (z, v))"

definition gf_mult :: "block \<Rightarrow> block \<Rightarrow> block" where
  "gf_mult x y = fst (foldl (gf_step x) (0, y) [0..<128])"

definition ghash :: "block \<Rightarrow> bytes \<Rightarrow> block" where
  "ghash h data = foldl (\<lambda>y b. gf_mult (y XOR block_of_bytes b) h) 0 (blocks_of 16 data)"

definition pad16 :: "bytes \<Rightarrow> bytes" where
  "pad16 bs = bs @ replicate ((16 - length bs mod 16) mod 16) 0"

definition inc32 :: "block \<Rightarrow> block" where
  "inc32 x = (x AND NOT 0xFFFFFFFF) OR ((x + 1) AND 0xFFFFFFFF)"

function gctr :: "bytes \<Rightarrow> block \<Rightarrow> bytes \<Rightarrow> bytes" where
  "gctr key cb xs =
     (if xs = [] then []
      else xor_bytes (take 16 xs) (bytes_of_block (aes256_encrypt key cb))
             @ gctr key (inc32 cb) (drop 16 xs))"
  by pat_completeness auto
termination
  by (relation "measure (\<lambda>(key, cb, xs). length xs)") auto

declare gctr.simps [simp del]

definition gcm_H :: "bytes \<Rightarrow> block" where
  "gcm_H key = aes256_encrypt key 0"

definition gcm_J0 :: "bytes \<Rightarrow> bytes \<Rightarrow> block" where
  "gcm_J0 key iv =
     (if length iv = 12 then block_of_bytes (iv @ [0, 0, 0, 1])
      else ghash (gcm_H key) (pad16 iv @ replicate 8 0 @ be_bytes 8 (8 * length iv)))"

definition gcm_tag :: "bytes \<Rightarrow> bytes \<Rightarrow> bytes \<Rightarrow> bytes \<Rightarrow> bytes" where
  "gcm_tag key iv aad ct =
     (let s = ghash (gcm_H key)
                (pad16 aad @ pad16 ct @ be_bytes 8 (8 * length aad) @ be_bytes 8 (8 * length ct))
      in bytes_of_block (s XOR aes256_encrypt key (gcm_J0 key iv)))"

definition gcm_crypt :: "bytes \<Rightarrow> bytes \<Rightarrow> bytes \<Rightarrow> bytes" where
  "gcm_crypt key iv xs = gctr key (inc32 (gcm_J0 key iv)) xs"

section \<open>The program: \<^verbatim>\<open>utils/encryption.ts\<close>\<close>

text \<open>
  Lines 14 to 17:
  \<^verbatim>\<open>crypto.pbkdf2Sync(password, 'playwright-salt', 10000, 32, 'sha256')\<close>.
  Both strings are converted to bytes as UTF-8.
\<close>

definition salt :: jsstring where
  "salt = js_of_ascii ''playwright-salt''"

definition deriveKey :: "jsstring \<Rightarrow> bytes" where
  "deriveKey password = pbkdf2_hmac_sha256 (utf8_encode password) (utf8_encode salt) 10000 32"

text \<open>
  Lines 34 and 69: the associated data \<^verbatim>\<open>Buffer.from('playwright-test', 'utf8')\<close>.
\<close>

definition AAD :: bytes where
  "AAD = utf8_encode (js_of_ascii ''playwright-test'')"

text \<open>
  Line 30: \<^verbatim>\<open>crypto.randomBytes(16)\<close>.  The random source is a parameter of the model,
  an unbounded supply of bytes of which the call takes the first \<open>n\<close>.
\<close>

definition randomBytes :: "nat \<Rightarrow> (nat \<Rightarrow> byte) \<Rightarrow> bytes" where
  "randomBytes n rnd = map rnd [0..<n]"

text \<open>
  Lines 37 and 38: \<^verbatim>\<open>cipher.update(password, 'utf8', 'base64')\<close> followed by
  \<^verbatim>\<open>cipher.final('base64')\<close>.  A GCM cipher emits all its output in \<^verbatim>\<open>update\<close>; the
  string decoder that produces the base64 text writes whole groups of three bytes in
  \<^verbatim>\<open>update\<close> and the remaining one or two bytes in \<^verbatim>\<open>final\<close>.
\<close>

definition cipher_update_base64 :: "bytes \<Rightarrow> string" where
  "cipher_update_base64 ct = base64_encode (take (length ct - length ct mod 3) ct)"

definition cipher_final_base64 :: "bytes \<Rightarrow> string" where
  "cipher_final_base64 ct = base64_encode (drop (length ct - length ct mod 3) ct)"

text \<open>
  Lines 44 to 46 of \<^verbatim>\<open>encryptPassword\<close>:
  \<^verbatim>\<open>Buffer.concat([iv, authTag, encrypted]).toString('base64')\<close>, and lines 60 to 65 of
  \<^verbatim>\<open>decryptPassword\<close>: \<^verbatim>\<open>Buffer.from(s, 'base64')\<close> cut by \<^verbatim>\<open>subarray(0, 16)\<close>,
  \<^verbatim>\<open>subarray(16, 32)\<close> and \<^verbatim>\<open>subarray(32)\<close>, which clamp to the length of the buffer.
\<close>

definition envelope_encode :: "bytes \<Rightarrow> bytes \<Rightarrow> bytes \<Rightarrow> string" where
  "envelope_encode iv authTag encrypted = base64_encode (iv @ authTag @ encrypted)"

definition envelope_decode :: "string \<Rightarrow> bytes \<times> bytes \<times> bytes" where
  "envelope_decode s =
     (let combined = base64_decode s
      in (take 16 combined, take 16 (drop 16 combined), drop 32 combined))"

text \<open>Lines 25 to 47.\<close>

definition encryptPassword ::
  "jsstring \<Rightarrow> jsstring option \<Rightarrow> jsstring option \<Rightarrow> (nat \<Rightarrow> byte) \<Rightarrow> string" where
  "encryptPassword password encryptionKey env rnd =
     (let key = resolve_key encryptionKey env;
          derivedKey = deriveKey key;
          iv = randomBytes 16 rnd;
          ct = gcm_crypt derivedKey iv (utf8_encode password);
          encrypted = cipher_update_base64 ct @ cipher_final_base64 ct;
          authTag = gcm_tag derivedKey iv AAD ct
      in envelope_encode iv authTag (base64_decode encrypted))"

text \<open>
  The errors that \<^verbatim>\<open>decryptPassword\<close> can raise are those of the \<^verbatim>\<open>crypto\<close> module; the
  file defines no error class of its own and catches nothing.
  \<^item> \<open>ERR_CRYPTO_INVALID_IV\<close>: \<^verbatim>\<open>createDecipheriv\<close> is given an empty initialization
    vector (a \<^verbatim>\<open>TypeError\<close>, "Invalid initialization vector");
  \<^item> \<open>ERR_CRYPTO_INVALID_AUTH_TAG n\<close>: \<^verbatim>\<open>setAuthTag\<close> is given a tag of \<open>n\<close> bytes, where
    \<open>n\<close> is not 4, 8 or 12 to 16 (a \<^verbatim>\<open>TypeError\<close>, "Invalid authentication tag length");
  \<^item> \<open>AuthenticationFailed\<close>: \<^verbatim>\<open>decipher.final\<close> finds that the tag does not match (a plain
    \<^verbatim>\<open>Error\<close>, "Unsupported state or unable to authenticate data").
\<close>

datatype crypto_error =
  ERR_CRYPTO_INVALID_IV
| ERR_CRYPTO_INVALID_AUTH_TAG nat
| AuthenticationFailed

definition valid_gcm_tag_length :: "nat \<Rightarrow> bool" where
  "valid_gcm_tag_length n = (n = 4 \<or> n = 8 \<or> (12 \<le> n \<and> n \<le> 16))"

text \<open>
  Lines 55 to 77.  \<^verbatim>\<open>decipher.update\<close> decrypts before the tag is checked, but its result
  is only returned when \<^verbatim>\<open>decipher.final\<close> has not thrown.  A tag shorter than 16 bytes is
  compared with the leading bytes of the computed tag.  The string is the UTF-8 decoding
  of the plaintext bytes, which \<^verbatim>\<open>update\<close> and \<^verbatim>\<open>final\<close> return in two parts.  Plaintext
  bytes that are not well-formed UTF-8 can only come from an envelope that was not made by
  \<^verbatim>\<open>encryptPassword\<close>; for them \<open>utf8_decode\<close> places the replacement characters as a
  decoder that sees all bytes at once does.
\<close>

definition decryptPassword ::
  "string \<Rightarrow> jsstring option \<Rightarrow> jsstring option \<Rightarrow> crypto_error + jsstring" where
  "decryptPassword encryptedPassword encryptionKey env =
     (let key = resolve_key encryptionKey env;
          derivedKey = deriveKey key;
          (iv, authTag, encrypted) = envelope_decode encryptedPassword
      in if iv = [] then Inl ERR_CRYPTO_INVALID_IV
         else if \<not> valid_gcm_tag_length (length authTag)
           then Inl (ERR_CRYPTO_INVALID_AUTH_TAG (length authTag))
         else
           (let decrypted = utf8_decode (gcm_crypt derivedKey iv encrypted)
            in if take (length authTag) (gcm_tag derivedKey iv AAD encrypted) = authTag
               then Inr decrypted
               else Inl AuthenticationFailed))"

section \<open>Properties\<close>

subsection \<open>Key resolution\<close>

lemma DEFAULT_KEY_nonempty: "DEFAULT_KEY \<noteq> []"
  by (simp add: DEFAULT_KEY_def js_of_ascii_def)

lemma resolve_key_cases:
  "resolve_key ek env =
     (if ek \<noteq> None \<and> ek \<noteq> Some [] then the ek
      else if env \<noteq> None \<and> env \<noteq> Some [] then the env
      else DEFAULT_KEY)"
  by (auto simp: resolve_key_def js_or_def js_truthy_def DEFAULT_KEY_nonempty
           split: option.splits)

subsection \<open>UTF-8 round trip\<close>

lemma unat_byte: "n < 256 \<Longrightarrow> unat (of_nat n :: byte) = n"
  by (simp add: unat_of_nat)

lemma decode_cp1:
  assumes "u < 0x80"
  shows "utf8_decode_cps (utf8_of_codepoint u @ bs) = u # utf8_decode_cps bs"
  using assms by (simp add: utf8_of_codepoint_def unat_byte)

lemma decode_cp2:
  assumes "0x80 \<le> u" "u < 0x800"
  shows "utf8_decode_cps (utf8_of_codepoint u @ bs) = u # utf8_decode_cps bs"
proof -
  define h where "h = u div 64"
  define l where "l = u mod 64"
  define B0 :: byte where "B0 = of_nat (0xC0 + h)"
  define B1 :: byte where "B1 = of_nat (0x80 + l)"
  have u: "u = h * 64 + l"
    unfolding h_def l_def by arith
  have h: "h < 32" "2 \<le> h" using assms unfolding h_def by auto
  have l: "l < 64" unfolding l_def by simp
  have b0: "unat B0 = 0xC0 + h"
    unfolding B0_def using h by (intro unat_byte) simp
  have b1: "unat B1 = 0x80 + l"
    unfolding B1_def using l by (intro unat_byte) simp
  have enc: "utf8_of_codepoint u = [B0, B1]"
    using assms by (simp add: utf8_of_codepoint_def h_def l_def B0_def B1_def)
  show ?thesis
    unfolding enc using h l
    by (simp add: b0 b1 in_range_def u)
qed


lemma split3:
  fixes u :: nat
  shows "u = (u div 4096) * 4096 + ((u div 64) mod 64) * 64 + u mod 64"
proof -
  have "u div 4096 = u div 64 div 64"
    using div_mult2_eq [of u 64 64] by simp
  moreover have "u div 64 = (u div 64 div 64) * 64 + (u div 64) mod 64"
    by simp
  moreover have "u = (u div 64) * 64 + u mod 64"
    by simp
  ultimately show ?thesis by linarith
qed

lemma split4:
  fixes u :: nat
  shows "u = (u div 262144) * 262144 + ((u div 4096) mod 64) * 4096
           + ((u div 64) mod 64) * 64 + u mod 64"
proof -
  have "u div 262144 = u div 4096 div 64"
    using div_mult2_eq [of u 4096 64] by simp
  moreover have "u div 4096 = (u div 4096 div 64) * 64 + (u div 4096) mod 64"
    by simp
  moreover have "u = (u div 4096) * 4096 + ((u div 64) mod 64) * 64 + u mod 64"
    by (rule split3)
  ultimately show ?thesis by linarith
qed

lemma decode_cp3:
  assumes "0x800 \<le> u" "u < 0x10000" "\<not> (0xD800 \<le> u \<and> u < 0xE000)"
  shows "utf8_decode_cps (utf8_of_codepoint u @ bs) = u # utf8_decode_cps bs"
proof -
  define h where "h = u div 4096"
  define m where "m = (u div 64) mod 64"
  define l where "l = u mod 64"
  define B0 :: byte where "B0 = of_nat (0xE0 + h)"
  define B1 :: byte where "B1 = of_nat (0x80 + m)"
  define B2 :: byte where "B2 = of_nat (0x80 + l)"
  have u: "u = h * 4096 + m * 64 + l"
    unfolding h_def m_def l_def by (rule split3)
  have h: "h < 16" using assms unfolding h_def by auto
  have m: "m < 64" unfolding m_def by simp
  have l: "l < 64" unfolding l_def by simp
  have b0: "unat B0 = 0xE0 + h"
    unfolding B0_def using h by (intro unat_byte) simp
  have b1: "unat B1 = 0x80 + m"
    unfolding B1_def using m by (intro unat_byte) simp
  have b2: "unat B2 = 0x80 + l"
    unfolding B2_def using l by (intro unat_byte) simp
  have e0: "h = 0 \<Longrightarrow> 32 \<le> m" using assms(1) u l by linarith
  have ed: "m < 32" if "h = 13"
  proof (rule ccontr)
    assume "\<not> m < 32"
    then have "0xD800 \<le> u" "u < 0xE000" using that u l m by simp_all
    then show False using assms(3) by simp
  qed
  have lead: "\<not> unat B0 < 0x80" "\<not> in_range 0xC2 0xDF B0" "in_range 0xE0 0xEF B0"
    using h by (simp_all add: in_range_def b0)
  have c1: "in_range (cont_lo B0) (cont_hi B0) B1"
    using e0 ed h m by (auto simp: in_range_def cont_lo_def cont_hi_def b0 b1)
  have c2: "in_range 0x80 0xBF B2"
    using l by (simp add: in_range_def b2)
  have val: "(unat B0 - 0xE0) * 4096 + (unat B1 - 0x80) * 64 + (unat B2 - 0x80) = u"
    by (simp add: b0 b1 b2 u)
  have enc: "utf8_of_codepoint u = [B0, B1, B2]"
    using assms by (simp add: utf8_of_codepoint_def h_def m_def l_def B0_def B1_def B2_def)
  show ?thesis
    unfolding enc by (simp add: lead c1 c2 val)
qed

lemma decode_cp4:
  assumes "0x10000 \<le> u" "u < 0x110000"
  shows "utf8_decode_cps (utf8_of_codepoint u @ bs) = u # utf8_decode_cps bs"
proof -
  define h where "h = u div 262144"
  define k where "k = (u div 4096) mod 64"
  define m where "m = (u div 64) mod 64"
  define l where "l = u mod 64"
  define B0 :: byte where "B0 = of_nat (0xF0 + h)"
  define B1 :: byte where "B1 = of_nat (0x80 + k)"
  define B2 :: byte where "B2 = of_nat (0x80 + m)"
  define B3 :: byte where "B3 = of_nat (0x80 + l)"
  have u: "u = h * 262144 + k * 4096 + m * 64 + l"
    unfolding h_def k_def m_def l_def by (rule split4)
  have h: "h < 5" using assms unfolding h_def by auto
  have k: "k < 64" unfolding k_def by simp
  have m: "m < 64" unfolding m_def by simp
  have l: "l < 64" unfolding l_def by simp
  have b0: "unat B0 = 0xF0 + h"
    unfolding B0_def using h by (intro unat_byte) simp
  have b1: "unat B1 = 0x80 + k"
    unfolding B1_def using k by (intro unat_byte) simp
  have b2: "unat B2 = 0x80 + m"
    unfolding B2_def using m by (intro unat_byte) simp
  have b3: "unat B3 = 0x80 + l"
    unfolding B3_def using l by (intro unat_byte) simp
  have f0: "h = 0 \<Longrightarrow> 16 \<le> k" using assms(1) u m l by linarith
  have f4: "h = 4 \<Longrightarrow> k < 16" using assms(2) u by linarith
  have lead: "\<not> unat B0 < 0x80" "\<not> in_range 0xC2 0xDF B0" "\<not> in_range 0xE0 0xEF B0"
      "in_range 0xF0 0xF4 B0"
    using h by (simp_all add: in_range_def b0)
  have c1: "in_range (cont_lo B0) (cont_hi B0) B1"
    using f0 f4 h k by (auto simp: in_range_def cont_lo_def cont_hi_def b0 b1)
  have c2: "in_range 0x80 0xBF B2"
    using m by (simp add: in_range_def b2)
  have c3: "in_range 0x80 0xBF B3"
    using l by (simp add: in_range_def b3)
  have val: "(unat B0 - 0xF0) * 262144 + (unat B1 - 0x80) * 4096 + (unat B2 - 0x80) * 64
      + (unat B3 - 0x80) = u"
    by (simp add: b0 b1 b2 b3 u)
  have enc: "utf8_of_codepoint u = [B0, B1, B2, B3]"
    using assms
    by (simp add: utf8_of_codepoint_def h_def k_def m_def l_def B0_def B1_def B2_def B3_def)
  show ?thesis
    unfolding enc by (simp add: lead c1 c2 c3 val)
qed

lemma decode_cp:
  assumes "u < 0x110000" "\<not> (0xD800 \<le> u \<and> u < 0xE000)"
  shows "utf8_decode_cps (utf8_of_codepoint u @ bs) = u # utf8_decode_cps bs"
proof -
  consider "u < 0x80" | "0x80 \<le> u" "u < 0x800" | "0x800 \<le> u" "u < 0x10000"
    | "0x10000 \<le> u"
    by linarith
  then show ?thesis
    using assms by cases (simp_all add: decode_cp1 decode_cp2 decode_cp3 decode_cp4)
qed

lemma utf16_of_unit:
  "utf16_of_codepoint (unat (c :: 16 word)) = [c]"
proof -
  have "unat c < 0x10000" using unsigned_less [of c, where ?'a = nat] by simp
  then show ?thesis by (simp add: utf16_of_codepoint_def)
qed

lemma pair_bounds:
  assumes "is_high_surrogate c" "is_low_surrogate d"
  shows "0x10000 \<le> surrogate_pair_codepoint c d" "surrogate_pair_codepoint c d < 0x110000"
  using assms
  by (auto simp: surrogate_pair_codepoint_def is_high_surrogate_def is_low_surrogate_def)

lemma utf16_of_pair:
  assumes "is_high_surrogate c" "is_low_surrogate d"
  shows "utf16_of_codepoint (surrogate_pair_codepoint c d) = [c, d]"
proof -
  define a where "a = unat c - 0xD800"
  define b where "b = unat d - 0xDC00"
  have a: "unat c = 0xD800 + a" "a < 1024"
    using assms by (auto simp: a_def is_high_surrogate_def)
  have b: "unat d = 0xDC00 + b" "b < 1024"
    using assms by (auto simp: b_def is_low_surrogate_def)
  have cp: "surrogate_pair_codepoint c d = 0x10000 + a * 1024 + b"
    by (simp add: surrogate_pair_codepoint_def a b)
  have "(a * 1024 + b) div 1024 = a" "(a * 1024 + b) mod 1024 = b"
    using b by auto
  then have "utf16_of_codepoint (surrogate_pair_codepoint c d) =
      [of_nat (unat c), of_nat (unat d)]"
    by (simp add: cp utf16_of_codepoint_def a b)
  then show ?thesis by simp
qed

lemma utf8_roundtrip:
  "well_formed_utf16 s \<Longrightarrow> utf8_decode (utf8_encode s) = s"
proof (induction s rule: utf8_encode.induct)
  case 1
  then show ?case by (simp add: utf8_decode_def)
next
  case (2 c)
  then have ns: "\<not> is_high_surrogate c" "\<not> is_low_surrogate c" by simp_all
  have "unat c < 0x110000" using unsigned_less [of c, where ?'a = nat] by simp
  then have "utf8_decode_cps (utf8_of_codepoint (unat c) @ []) = unat c # utf8_decode_cps []"
    using ns by (intro decode_cp) (auto simp: is_high_surrogate_def is_low_surrogate_def)
  then show ?case
    using ns by (simp add: utf8_decode_def utf16_of_unit)
next
  case (3 c d r)
  show ?case
  proof (cases "is_high_surrogate c")
    case True
    with 3 have lo: "is_low_surrogate d" and wf: "well_formed_utf16 r" by auto
    have ih: "utf8_decode (utf8_encode r) = r" using 3 True lo wf by simp
    have "utf8_decode_cps (utf8_of_codepoint (surrogate_pair_codepoint c d) @ utf8_encode r)
        = surrogate_pair_codepoint c d # utf8_decode_cps (utf8_encode r)"
      using pair_bounds [OF True lo] by (intro decode_cp) auto
    then show ?thesis
      using True lo ih by (simp add: utf8_decode_def utf16_of_pair)
  next
    case False
    with 3 have nlo: "\<not> is_low_surrogate c" and wf: "well_formed_utf16 (d # r)" by auto
    have ih: "utf8_decode (utf8_encode (d # r)) = d # r" using 3 False nlo wf by simp
    have "unat c < 0x110000" using unsigned_less [of c, where ?'a = nat] by simp
    then have "utf8_decode_cps (utf8_of_codepoint (unat c) @ utf8_encode (d # r))
        = unat c # utf8_decode_cps (utf8_encode (d # r))"
      using False nlo by (intro decode_cp) (auto simp: is_high_surrogate_def is_low_surrogate_def)
    then show ?thesis
      using False nlo ih by (simp add: utf8_decode_def utf16_of_unit)
  qed
qed

lemma utf8_examples:
  "utf8_encode [0x68, 0xE9, 0x20AC] = [0x68, 0xC3, 0xA9, 0xE2, 0x82, 0xAC]"
  "utf8_encode [0xD83D, 0xDE00] = [0xF0, 0x9F, 0x98, 0x80]"
  "utf8_encode [0xD83D] = [0xEF, 0xBF, 0xBD]"
  by (simp_all add: is_high_surrogate_def is_low_surrogate_def utf8_of_codepoint_def
      surrogate_pair_codepoint_def)

subsection \<open>Base64 round trip\<close>

lemma unbase64_b64char: "n < 64 \<Longrightarrow> unbase64 (b64char n) = Some n"
  by (auto simp: unbase64_def b64char_def Let_def)

lemma unbase64_pad: "unbase64 CHR ''='' = None"
  by (simp add: unbase64_def)

lemma byte_bound: "unat (a :: byte) < 256"
  using unsigned_less [of a, where ?'a = nat] by simp

lemma sextet_bounds:
  "unat (a :: byte) div 4 < 64"
  "(unat (a :: byte) mod 4) * 16 + unat (b :: byte) div 16 < 64"
  "(unat (b :: byte) mod 16) * 4 + unat (c :: byte) div 64 < 64"
  "unat (c :: byte) mod 64 < 64"
  "(unat (a :: byte) mod 4) * 16 < 64"
  "(unat (b :: byte) mod 16) * 4 < 64"
  using byte_bound [of a] byte_bound [of b] byte_bound [of c] by simp_all

lemma word_of_unat: "(of_nat (unat a) :: byte) = a"
  by simp

lemma b64_bytes_group:
  "b64_bytes (unat a div 4 # ((unat a mod 4) * 16 + unat b div 16) #
              ((unat b mod 16) * 4 + unat c div 64) # unat c mod 64 # r)
     = a # b # c # b64_bytes r"
proof -
  have 1: "(unat a div 4) * 4 + ((unat a mod 4) * 16 + unat b div 16) div 16 = unat a"
    using byte_bound [of b] by simp
  have 2: "(((unat a mod 4) * 16 + unat b div 16) mod 16) * 16
      + ((unat b mod 16) * 4 + unat c div 64) div 4 = unat b"
    using byte_bound [of b] byte_bound [of c] by simp
  have 3: "(((unat b mod 16) * 4 + unat c div 64) mod 4) * 64 + unat c mod 64 = unat c"
    using byte_bound [of c] by simp
  show ?thesis
    by (simp only: b64_bytes.simps 1 2 3 word_of_unat append.simps)
qed

lemma b64_bytes_last2:
  "b64_bytes [unat a div 4, (unat a mod 4) * 16 + unat b div 16, (unat b mod 16) * 4] = [a, b]"
proof -
  have 1: "(unat a div 4) * 4 + ((unat a mod 4) * 16 + unat b div 16) div 16 = unat a"
    using byte_bound [of b] by simp
  have 2: "(((unat a mod 4) * 16 + unat b div 16) mod 16) * 16
      + ((unat b mod 16) * 4) div 4 = unat b"
    using byte_bound [of b] by simp
  show ?thesis
    by (simp only: b64_bytes.simps 1 2 word_of_unat)
qed

lemma b64_bytes_last1:
  "b64_bytes [unat a div 4, (unat a mod 4) * 16] = [a]"
proof -
  have 1: "(unat a div 4) * 4 + ((unat a mod 4) * 16) div 16 = unat a"
    by simp
  show ?thesis
    by (simp only: b64_bytes.simps 1 word_of_unat)
qed

lemma b64_sextets_encode:
  "b64_bytes (b64_sextets (base64_encode bs)) = bs"
proof (induction bs rule: base64_encode.induct)
  case (1 a b c r)
  have "b64_sextets (base64_encode (a # b # c # r)) =
      unat a div 4 # ((unat a mod 4) * 16 + unat b div 16) #
      ((unat b mod 16) * 4 + unat c div 64) # unat c mod 64 # b64_sextets (base64_encode r)"
    by (simp add: unbase64_b64char sextet_bounds)
  then show ?case
    by (simp only: b64_bytes_group 1)
next
  case (2 a b)
  have "b64_sextets (base64_encode [a, b]) =
      [unat a div 4, (unat a mod 4) * 16 + unat b div 16, (unat b mod 16) * 4]"
    by (simp add: unbase64_b64char sextet_bounds unbase64_pad)
  then show ?case
    by (simp only: b64_bytes_last2)
next
  case (3 a)
  have "b64_sextets (base64_encode [a]) = [unat a div 4, (unat a mod 4) * 16]"
    by (simp add: unbase64_b64char sextet_bounds unbase64_pad)
  then show ?case
    by (simp only: b64_bytes_last1)
next
  case 4
  show ?case by simp
qed

lemma base64_decode_encode: "base64_decode (base64_encode bs) = bs"
  by (simp add: base64_decode_def b64_sextets_encode)

lemma base64_encode_append:
  "length xs mod 3 = 0 \<Longrightarrow> base64_encode (xs @ ys) = base64_encode xs @ base64_encode ys"
  by (induction xs rule: base64_encode.induct) simp_all

lemma base64_examples:
  "base64_encode [0x4D, 0x61, 0x6E] = ''TWFu''"
  "base64_encode [0x4D, 0x61] = ''TWE=''"
  "base64_decode ''TWFu TQ=='' = [0x4D, 0x61, 0x6E, 0x4D]"
  by code_simp+

subsection \<open>Lengths, and the counter mode as an involution\<close>

lemma length_be_bytes: "length (be_bytes n v) = n"
  by (simp add: be_bytes_def)

lemma length_sha256: "length (sha256 m) = 32"
  by (simp add: sha256_def Let_def length_concat length_be_bytes o_def
      sum_list_triv)

lemma length_hmac_sha256: "length (hmac_sha256 key msg) = 32"
  by (simp add: hmac_sha256_def Let_def length_sha256)

lemma length_xor_bytes: "length (xor_bytes xs ys) = min (length xs) (length ys)"
  by (simp add: xor_bytes_def)

lemma xor_bytes_cancel:
  "length xs \<le> length ks \<Longrightarrow> xor_bytes (xor_bytes xs ks) ks = xs"
proof (induction xs arbitrary: ks)
  case Nil
  then show ?case by (simp add: xor_bytes_def)
next
  case (Cons x xs)
  then obtain k ks' where ks: "ks = k # ks'" by (cases ks) auto
  have "(x XOR k) XOR k = x"
    by (simp add: xor.assoc)
  with Cons ks show ?case
    by (simp add: xor_bytes_def)
qed

lemma length_pbkdf2_iter:
  assumes "\<And>x. length (mac x) = 32" "length acc = 32"
  shows "length (pbkdf2_iter mac n u acc) = 32"
  using assms(2)
proof (induction n arbitrary: u acc)
  case 0
  then show ?case by simp
next
  case (Suc n)
  show ?case
    using Suc.prems assms(1)
    by (simp add: Let_def Suc.IH length_xor_bytes)
qed

lemma length_pbkdf2_F:
  assumes "\<And>x. length (mac x) = 32"
  shows "length (pbkdf2_F mac s c i) = 32"
  using assms by (simp add: pbkdf2_F_def Let_def length_pbkdf2_iter)

lemma length_pbkdf2_hmac_sha256: "length (pbkdf2_hmac_sha256 password s c 32) = 32"
proof -
  have "[1..<Suc ((32 + 32 - 1) div 32)] = [1::nat]"
    by (simp add: upt_rec)
  then show ?thesis
    by (simp add: pbkdf2_hmac_sha256_def pbkdf2_def length_pbkdf2_F length_hmac_sha256)
qed

lemma length_deriveKey: "length (deriveKey password) = 32"
  by (simp add: deriveKey_def length_pbkdf2_hmac_sha256)

lemma length_bytes_of_block: "length (bytes_of_block w) = 16"
  by (simp add: bytes_of_block_def length_be_bytes)

lemma length_gcm_tag: "length (gcm_tag key iv aad ct) = 16"
  by (simp add: gcm_tag_def Let_def length_bytes_of_block)

lemma length_gctr: "length (gctr key cb xs) = length xs"
proof (induction key cb xs rule: gctr.induct)
  case (1 key cb xs)
  show ?case
  proof (cases "xs = []")
    case True
    then show ?thesis by (simp add: gctr.simps)
  next
    case False
    have "length (gctr key cb xs) =
        min (length xs) 16 + length (gctr key (inc32 cb) (drop 16 xs))"
      using False
      by (subst gctr.simps) (simp add: length_xor_bytes length_bytes_of_block)
    also have "\<dots> = min (length xs) 16 + (length xs - 16)"
      using 1 False by simp
    finally show ?thesis by simp
  qed
qed

lemma gctr_involution: "gctr key cb (gctr key cb xs) = xs"
proof (induction key cb xs rule: gctr.induct)
  case (1 key cb xs)
  show ?case
  proof (cases "xs = []")
    case True
    then show ?thesis by (simp add: gctr.simps)
  next
    case False
    define ks where "ks = bytes_of_block (aes256_encrypt key cb)"
    define hd where "hd = xor_bytes (take 16 xs) ks"
    define tl where "tl = gctr key (inc32 cb) (drop 16 xs)"
    have ks: "length ks = 16"
      by (simp add: ks_def length_bytes_of_block)
    have hd_len: "length hd = min (length xs) 16"
      by (simp add: hd_def length_xor_bytes ks)
    have tl_len: "length tl = length xs - 16"
      by (simp add: tl_def length_gctr)
    have unfold: "gctr key cb xs = hd @ tl"
      using False by (subst gctr.simps) (simp add: hd_def tl_def ks_def)
    have ne: "hd @ tl \<noteq> []"
      using False hd_len by (cases xs) auto
    have take_hd: "take 16 (hd @ tl) = hd"
    proof (cases "16 \<le> length xs")
      case True
      then show ?thesis using hd_len by simp
    next
      case False
      then have "length tl = 0" using tl_len by simp
      then show ?thesis using hd_len by simp
    qed
    have drop_tl: "drop 16 (hd @ tl) = tl"
    proof (cases "16 \<le> length xs")
      case True
      then show ?thesis using hd_len by simp
    next
      case False
      then have "tl = []" using tl_len by simp
      then show ?thesis using hd_len by simp
    qed
    have "gctr key cb (hd @ tl) =
        xor_bytes (take 16 (hd @ tl)) ks @ gctr key (inc32 cb) (drop 16 (hd @ tl))"
      unfolding ks_def using ne gctr.simps [of key cb "hd @ tl"] by presburger
    then have "gctr key cb (hd @ tl) = xor_bytes hd ks @ gctr key (inc32 cb) tl"
      by (simp only: take_hd drop_tl)
    also have "xor_bytes hd ks = take 16 xs"
      unfolding hd_def by (rule xor_bytes_cancel) (simp add: ks)
    also have "gctr key (inc32 cb) tl = drop 16 xs"
      unfolding tl_def using 1 False by simp
    finally show ?thesis
      by (simp add: unfold)
  qed
qed

lemma length_gcm_crypt: "length (gcm_crypt key iv xs) = length xs"
  by (simp add: gcm_crypt_def length_gctr)

lemma gcm_crypt_involution: "gcm_crypt key iv (gcm_crypt key iv xs) = xs"
  by (simp add: gcm_crypt_def gctr_involution)



subsection \<open>Encrypting, then decrypting\<close>

lemma length_randomBytes: "length (randomBytes n rnd) = n"
  by (simp add: randomBytes_def)

lemma cipher_base64_decode:
  "base64_decode (cipher_update_base64 ct @ cipher_final_base64 ct) = ct"
proof -
  define n where "n = length ct - length ct mod 3"
  have "n mod 3 = 0"
    unfolding n_def by (metis minus_mod_eq_mult_div mod_mult_self1_is_0 mult.commute)
  moreover have "n \<le> length ct"
    unfolding n_def by simp
  ultimately have "length (take n ct) mod 3 = 0"
    by simp
  then have "base64_encode (take n ct) @ base64_encode (drop n ct) =
      base64_encode (take n ct @ drop n ct)"
    by (rule base64_encode_append [symmetric])
  then show ?thesis
    by (simp add: cipher_update_base64_def cipher_final_base64_def n_def base64_decode_encode)
qed

lemma envelope_decode_encode_aux:
  assumes "length iv = 16" "length authTag = 16"
  shows "envelope_decode (envelope_encode iv authTag encrypted) = (iv, authTag, encrypted)"
  using assms
  by (simp add: envelope_decode_def envelope_encode_def base64_decode_encode)

lemma envelope_of_encryptPassword:
  "envelope_decode (encryptPassword password ek env rnd) =
     (randomBytes 16 rnd,
      gcm_tag (deriveKey (resolve_key ek env)) (randomBytes 16 rnd) AAD
        (gcm_crypt (deriveKey (resolve_key ek env)) (randomBytes 16 rnd) (utf8_encode password)),
      gcm_crypt (deriveKey (resolve_key ek env)) (randomBytes 16 rnd) (utf8_encode password))"
  by (simp add: encryptPassword_def Let_def cipher_base64_decode
      envelope_decode_encode_aux length_randomBytes length_gcm_tag)

lemma randomBytes_nonempty: "randomBytes 16 rnd \<noteq> []"
  using length_randomBytes [of 16 rnd] by auto

lemma decrypt_encrypt_same_derived_key:
  assumes "deriveKey (resolve_key ek' env') = deriveKey (resolve_key ek env)"
  shows "decryptPassword (encryptPassword password ek env rnd) ek' env' =
           Inr (utf8_decode (utf8_encode password))"
  using assms
  by (simp add: decryptPassword_def envelope_of_encryptPassword Let_def randomBytes_nonempty
      length_gcm_tag valid_gcm_tag_length_def gcm_crypt_involution)

lemma utf8_of_codepoint_nonempty: "utf8_of_codepoint u \<noteq> []"
  by (simp add: utf8_of_codepoint_def)

lemma utf8_encode_empty_iff: "utf8_encode s = [] \<longleftrightarrow> s = []"
  by (induction s rule: utf8_encode.induct) (simp_all add: utf8_of_codepoint_nonempty)

subsection \<open>What the decoder and the key derivation do not distinguish\<close>







lemma resolve_key_explicit: "k \<noteq> [] \<Longrightarrow> resolve_key (Some k) env = k"
  by (simp add: resolve_key_cases)

lemma resolve_key_idem:
  "resolve_key (Some (resolve_key ek env)) env' = resolve_key ek env"
  by (cases ek; cases env; cases env')
     (auto simp: resolve_key_def js_or_def js_truthy_def DEFAULT_KEY_nonempty)



subsection \<open>What \<^verbatim>\<open>decryptPassword\<close> checks\<close>






section \<open>Claims\<close>

subsection \<open>Round trip\<close>

text \<open>
  A string that holds a surrogate without its partner does not come back: the UTF-8
  conversion of line 37 replaces the lone surrogate by U+FFFD before it is encrypted.
\<close>

theorem round_trip_lone_surrogate_counterexample:
  "decryptPassword
     (encryptPassword [0xD800] (Some (js_of_ascii ''test-key'')) None of_nat)
     (Some (js_of_ascii ''test-key'')) None = Inr [0xFFFD]
   \<and> decryptPassword
     (encryptPassword [0xD800] (Some (js_of_ascii ''test-key'')) None of_nat)
     (Some (js_of_ascii ''test-key'')) None \<noteq> Inr [0xD800]"
proof -
  have "utf8_decode (utf8_encode [0xD800]) = [0xFFFD]"
    by (simp add: is_high_surrogate_def is_low_surrogate_def utf8_of_codepoint_def
        utf8_decode_def in_range_def cont_lo_def cont_hi_def utf16_of_codepoint_def)
  then show ?thesis
    by (simp add: decrypt_encrypt_same_derived_key)
qed

text \<open>
  C1, as amended: for every plaintext that is well-formed UTF-16 (the empty string and
  strings with multi-byte characters and surrogate pairs included), every key argument and
  every environment, \<^verbatim>\<open>decryptPassword(encryptPassword(p, k), k)\<close> returns exactly \<open>p\<close>.
\<close>

theorem decrypt_encrypt_round_trip:
  assumes "well_formed_utf16 password"
  shows "decryptPassword (encryptPassword password encryptionKey env rnd) encryptionKey env
           = Inr password"
  using assms by (simp add: decrypt_encrypt_same_derived_key utf8_roundtrip)

text \<open>
  The round trip at a plaintext with characters of one, two, three and four UTF-8
  bytes.
\<close>

theorem decrypt_encrypt_round_trip_witness:
  "well_formed_utf16 [0x68, 0xE9, 0x20AC, 0xD83D, 0xDE00]
   \<and> decryptPassword
        (encryptPassword [0x68, 0xE9, 0x20AC, 0xD83D, 0xDE00]
           (Some (js_of_ascii ''test-key'')) None of_nat)
        (Some (js_of_ascii ''test-key'')) None
       = Inr [0x68, 0xE9, 0x20AC, 0xD83D, 0xDE00]"
proof -
  have wf: "well_formed_utf16 [0x68, 0xE9, 0x20AC, 0xD83D, 0xDE00]"
    by (simp add: is_high_surrogate_def is_low_surrogate_def)
  show ?thesis
    using wf decrypt_encrypt_round_trip [OF wf] by simp
qed

subsection \<open>Authentication\<close>




subsection \<open>Malformed envelopes\<close>




subsection \<open>Key resolution\<close>

text \<open>
  An explicit key that is the empty string does not take priority over the environment.
\<close>

theorem explicit_empty_key_counterexample:
  "resolve_key (Some []) (Some (js_of_ascii ''env-key'')) = js_of_ascii ''env-key''
   \<and> resolve_key (Some []) (Some (js_of_ascii ''env-key'')) \<noteq> []"
  by (simp add: resolve_key_def js_or_def js_truthy_def js_of_ascii_def)

text \<open>
  C4, as amended: the key of both functions is the explicit parameter if it is a non-empty
  string; otherwise the environment variable if it is set to a non-empty string; otherwise
  the default constant.  Both functions behave as if that key had been passed explicitly.
\<close>

theorem key_resolution_priority:
  "(k \<noteq> [] \<longrightarrow> resolve_key (Some k) env = k)
   \<and> (e \<noteq> [] \<longrightarrow> resolve_key None (Some e) = e \<and> resolve_key (Some []) (Some e) = e)
   \<and> resolve_key None None = DEFAULT_KEY
   \<and> resolve_key None (Some []) = DEFAULT_KEY
   \<and> encryptPassword password encryptionKey env rnd
       = encryptPassword password (Some (resolve_key encryptionKey env)) env' rnd
   \<and> decryptPassword s encryptionKey env
       = decryptPassword s (Some (resolve_key encryptionKey env)) env'"
proof -
  have "resolve_key None None = DEFAULT_KEY" "resolve_key None (Some []) = DEFAULT_KEY"
    by (simp_all add: resolve_key_def js_or_def js_truthy_def)
  moreover have "e \<noteq> [] \<longrightarrow> resolve_key None (Some e) = e \<and> resolve_key (Some []) (Some e) = e"
    by (simp add: resolve_key_def js_or_def js_truthy_def)
  ultimately show ?thesis
    by (simp add: resolve_key_explicit encryptPassword_def decryptPassword_def resolve_key_idem)
qed

text \<open>
  The priorities at an explicit key \<^verbatim>\<open>k\<close> and an environment key \<^verbatim>\<open>e\<close>.
\<close>

theorem key_resolution_priority_witness:
  "js_of_ascii ''k'' \<noteq> [] \<and> js_of_ascii ''e'' \<noteq> []
   \<and> resolve_key (Some (js_of_ascii ''k'')) (Some (js_of_ascii ''e'')) = js_of_ascii ''k''
   \<and> resolve_key None (Some (js_of_ascii ''e'')) = js_of_ascii ''e''
   \<and> resolve_key None None = DEFAULT_KEY"
  using key_resolution_priority [of "js_of_ascii ''k''" "Some (js_of_ascii ''e'')" "js_of_ascii ''e''"]
  by (simp add: js_of_ascii_def)

subsection \<open>Envelope format\<close>



subsection \<open>Key derivation\<close>

text \<open>
  C6: \<^verbatim>\<open>deriveKey\<close> is PBKDF2 with HMAC-SHA-256, the salt \<^verbatim>\<open>playwright-salt\<close> and 10000
  iterations, applied to the UTF-8 bytes of the passphrase; it is the first PBKDF2 block,
  untruncated, and has exactly 32 bytes for every passphrase, the empty one included.
\<close>

theorem deriveKey_pbkdf2_32_bytes:
  "deriveKey password
     = pbkdf2_hmac_sha256 (utf8_encode password) (utf8_encode (js_of_ascii ''playwright-salt''))
         10000 32
   \<and> deriveKey password
     = pbkdf2_F (hmac_sha256 (utf8_encode password))
         (utf8_encode (js_of_ascii ''playwright-salt'')) 10000 1
   \<and> length (deriveKey password) = 32
   \<and> length (deriveKey []) = 32"
proof -
  have one: "[1..<Suc ((32 + 32 - 1) div 32)] = [1::nat]"
    by (simp add: upt_rec)
  have "pbkdf2 f 32 s c 32 = pbkdf2_F f s c 1" if "\<And>x. length (f x) = 32" for f s c
    using that by (simp add: pbkdf2_def one length_pbkdf2_F)
  then show ?thesis
    by (simp add: deriveKey_def salt_def pbkdf2_hmac_sha256_def length_hmac_sha256
        length_pbkdf2_F)
qed

subsection \<open>Envelope sizes\<close>

text \<open>
  C7: the envelope of a plaintext decodes to a nonce of 16 bytes, a tag of 16 bytes and a
  ciphertext as long as the UTF-8 encoding of the plaintext, 32 + L bytes in all; the
  ciphertext is empty exactly when the plaintext is.
\<close>

theorem envelope_lengths:
  "(case envelope_decode (encryptPassword password encryptionKey env rnd) of
      (iv, authTag, encrypted) \<Rightarrow>
        length iv = 16 \<and> length authTag = 16
        \<and> length encrypted = length (utf8_encode password)
        \<and> (encrypted = [] \<longleftrightarrow> password = []))
   \<and> length (base64_decode (encryptPassword password encryptionKey env rnd))
       = 32 + length (utf8_encode password)"
proof -
  have "length (gcm_crypt K iv (utf8_encode password)) = 0 \<longleftrightarrow> password = []" for K iv
    by (simp add: length_gcm_crypt utf8_encode_empty_iff)
  then have a: "gcm_crypt K iv (utf8_encode password) = [] \<longleftrightarrow> password = []" for K iv
    by simp
  have b: "base64_decode (encryptPassword password encryptionKey env rnd)
      = randomBytes 16 rnd
        @ gcm_tag (deriveKey (resolve_key encryptionKey env)) (randomBytes 16 rnd) AAD
            (gcm_crypt (deriveKey (resolve_key encryptionKey env)) (randomBytes 16 rnd)
               (utf8_encode password))
        @ gcm_crypt (deriveKey (resolve_key encryptionKey env)) (randomBytes 16 rnd)
            (utf8_encode password)"
    by (simp add: encryptPassword_def Let_def envelope_encode_def base64_decode_encode
        cipher_base64_decode)
  show ?thesis
    by (simp add: envelope_of_encryptPassword length_randomBytes length_gcm_tag
        length_gcm_crypt a b)
qed

subsection \<open>Fresh nonces\<close>

text \<open>
  With a lone surrogate as plaintext, an envelope does not decrypt to the plaintext,
  whatever the nonce.
\<close>

theorem nonce_reuse_lone_surrogate_counterexample:
  "randomBytes 16 of_nat \<noteq> randomBytes 16 (of_nat \<circ> Suc)
   \<and> decryptPassword
       (encryptPassword [0xDC00] (Some (js_of_ascii ''test-key'')) None (of_nat \<circ> Suc))
       (Some (js_of_ascii ''test-key'')) None \<noteq> Inr [0xDC00]"
proof -
  have "utf8_decode (utf8_encode [0xDC00]) = [0xFFFD]"
    by (simp add: is_high_surrogate_def is_low_surrogate_def utf8_of_codepoint_def
        utf8_decode_def in_range_def cont_lo_def cont_hi_def utf16_of_codepoint_def)
  moreover have "randomBytes 16 of_nat \<noteq> randomBytes 16 (of_nat \<circ> Suc)"
    by (simp add: randomBytes_def upt_conv_Cons)
  ultimately show ?thesis
    by (simp add: decrypt_encrypt_same_derived_key)
qed

text \<open>
  C8, as amended: for every well-formed UTF-16 plaintext and every key, two encryptions
  whose nonces differ give different envelopes, and both envelopes decrypt to the
  plaintext.
\<close>

theorem distinct_nonces_distinct_envelopes:
  assumes "well_formed_utf16 password" "randomBytes 16 rnd1 \<noteq> randomBytes 16 rnd2"
  shows "encryptPassword password encryptionKey env rnd1
           \<noteq> encryptPassword password encryptionKey env rnd2
         \<and> decryptPassword (encryptPassword password encryptionKey env rnd1) encryptionKey env
           = Inr password
         \<and> decryptPassword (encryptPassword password encryptionKey env rnd2) encryptionKey env
           = Inr password"
proof -
  have "fst (envelope_decode (encryptPassword password encryptionKey env rnd1))
      \<noteq> fst (envelope_decode (encryptPassword password encryptionKey env rnd2))"
    using assms(2) by (simp add: envelope_of_encryptPassword)
  then have "encryptPassword password encryptionKey env rnd1
      \<noteq> encryptPassword password encryptionKey env rnd2"
    by auto
  then show ?thesis
    using assms(1) by (simp add: decrypt_encrypt_same_derived_key utf8_roundtrip)
qed

text \<open>
  Two random sources whose first 16 bytes differ.
\<close>

theorem distinct_nonces_distinct_envelopes_witness:
  "well_formed_utf16 (js_of_ascii ''hunter2'')
   \<and> randomBytes 16 of_nat \<noteq> randomBytes 16 (of_nat \<circ> Suc)
   \<and> encryptPassword (js_of_ascii ''hunter2'') (Some (js_of_ascii ''test-key'')) None of_nat
       \<noteq> encryptPassword (js_of_ascii ''hunter2'') (Some (js_of_ascii ''test-key'')) None
            (of_nat \<circ> Suc)
   \<and> decryptPassword
        (encryptPassword (js_of_ascii ''hunter2'') (Some (js_of_ascii ''test-key'')) None of_nat)
        (Some (js_of_ascii ''test-key'')) None = Inr (js_of_ascii ''hunter2'')
   \<and> decryptPassword
        (encryptPassword (js_of_ascii ''hunter2'') (Some (js_of_ascii ''test-key'')) None
           (of_nat \<circ> Suc))
        (Some (js_of_ascii ''test-key'')) None = Inr (js_of_ascii ''hunter2'')"
proof -
  have wf: "well_formed_utf16 (js_of_ascii ''hunter2'')"
    by (simp add: js_of_ascii_def is_high_surrogate_def is_low_surrogate_def)
  have ne: "randomBytes 16 of_nat \<noteq> randomBytes 16 (of_nat \<circ> Suc)"
    by (simp add: randomBytes_def upt_conv_Cons)
  show ?thesis
    using wf ne distinct_nonces_distinct_envelopes [OF wf ne] by simp
qed

subsection \<open>Dependence on the environment\<close>




subsection \<open>Empty explicit key\<close>


end
